theory Spec2Isabelle
  imports Main
begin

section \<open>JavaScript values, thrown values and the error taxonomy\<close>

text \<open>
  The crawl contexts of \<^verbatim>\<open>workflows/crawl/types.ts\<close> are plain JavaScript objects
  built with object literals and spread. They are modelled as what they are at run
  time: finite maps from property names to values. Only the value shapes that the
  contexts hold are needed: \<open>undefined\<close>, strings, and the metadata object
  (\<^verbatim>\<open>Record<string, string | undefined>\<close>, kept as an association list in
  insertion order).
\<close>

type_synonym Metadata = "(string \<times> string option) list"

datatype jsval = Undefined | Str string | Meta Metadata

type_synonym CrawlContext = "string \<rightharpoonup> jsval"

text \<open>Reading a property: a missing property reads as \<open>undefined\<close>.\<close>

definition field_of :: "CrawlContext \<Rightarrow> string \<Rightarrow> jsval" where
  "field_of ctx field = (case ctx field of None \<Rightarrow> Undefined | Some v \<Rightarrow> v)"

text \<open>
  \<^verbatim>\<open>export type CrawlError = { type: 'fetch_failed'; status; statusText; url } | ...\<close>

  Anything can be thrown in JavaScript. \<open>JsError name message\<close> is an instance of
  \<open>Error\<close> (or of a subclass, which the name tells), \<open>CrawlErrorObject\<close> a plain
  object of the \<open>CrawlError\<close> union, \<open>OtherValue\<close> any other value. The \<open>cause\<close> of
  the \<open>unknown\<close> variant is the caught value, whence the mutual recursion.
\<close>

datatype thrown = JsError string string | CrawlErrorObject CrawlError | OtherValue
  and CrawlError =
      fetch_failed nat string string
    | timeout nat string
    | parse_failed string string
    | network_error string "string option"
    | invalid_html string
    | unknown string "thrown option"


text \<open>
  \<^verbatim>\<open>export type Result<T, E = CrawlError> = Success<T> | Failure<E>\<close>, with its
  boolean field \<open>success\<close>, and the payload \<^verbatim>\<open>CrawlResultData\<close>.
\<close>

datatype 'a Result = Success 'a | Failure CrawlError

fun success :: "'a Result \<Rightarrow> bool" where
  "success (Success d) = True"
| "success (Failure e) = False"

record CrawlResultData =
  markdown :: jsval
  title :: jsval
  metadata :: jsval

type_synonym CrawlResult = "CrawlResultData Result"

text \<open>
  Template literals print a non-negative integer in decimal
  (\<^verbatim>\<open>`Fetch failed: ${response.status} ...`\<close>).
\<close>

fun digit_char :: "nat \<Rightarrow> char" where
  "digit_char n = char_of (48 + n)"

fun show_nat :: "nat \<Rightarrow> string" where
  "show_nat n = (if n < 10 then [digit_char n] else show_nat (n div 10) @ [digit_char (n mod 10)])"

declare show_nat.simps [simp del]

section \<open>The sliding-window rate limiter (src/lib/rateLimiter.ts)\<close>

text \<open>
  \<^verbatim>\<open>class RateLimiter { private requests = new Map<string, number[]>(); ... }\<close>

  The only field is the history map from an identifier to its recorded timestamps, in
  the order in which they were pushed. \<^verbatim>\<open>Date.now()\<close> is an input of the model:
  every operation that reads the clock takes the value read as its first argument.
\<close>

record RateLimiter =
  requests :: "string \<rightharpoonup> int list"

definition new_RateLimiter :: RateLimiter where
  "new_RateLimiter = \<lparr>requests = Map.empty\<rparr>"

definition checkLimit :: "int \<Rightarrow> string \<Rightarrow> int \<Rightarrow> int \<Rightarrow> RateLimiter \<Rightarrow> bool \<times> RateLimiter" where
  "checkLimit now identifier maxRequests windowMs rl =
     (let timestamps = (case requests rl identifier of None \<Rightarrow> [] | Some ts \<Rightarrow> ts);
          recent = filter (\<lambda>t. now - t < windowMs) timestamps
      in if maxRequests \<le> int (length recent) then (False, rl)
         else (True, rl\<lparr>requests := (requests rl)(identifier \<mapsto> recent @ [now])\<rparr>))"

text \<open>
  A sequence of checks of one identifier under one configuration, made at the given
  clock readings one after the other; the answers are returned in order.
\<close>

fun checkAll :: "int list \<Rightarrow> string \<Rightarrow> int \<Rightarrow> int \<Rightarrow> RateLimiter \<Rightarrow> bool list \<times> RateLimiter" where
  "checkAll [] identifier maxRequests windowMs rl = ([], rl)"
| "checkAll (now # later) identifier maxRequests windowMs rl =
     (let (allowed, rl') = checkLimit now identifier maxRequests windowMs rl;
          (answers, rl'') = checkAll later identifier maxRequests windowMs rl'
      in (allowed # answers, rl''))"

text \<open>
  The history of an identifier (empty when the map has no entry for it), and the part
  of a history that a check at \<open>now\<close> keeps: the timestamps whose age \<open>now - t\<close> is
  strictly below the window.
\<close>

definition history :: "RateLimiter \<Rightarrow> string \<Rightarrow> int list" where
  "history rl identifier = (case requests rl identifier of None \<Rightarrow> [] | Some ts \<Rightarrow> ts)"

definition recent_of :: "int \<Rightarrow> int \<Rightarrow> int list \<Rightarrow> int list" where
  "recent_of now windowMs ts = filter (\<lambda>t. now - t < windowMs) ts"

section \<open>The TTL cache (lib/cache.ts)\<close>

text \<open>
  \<^verbatim>\<open>interface CacheEntry<T> { value: T; expiresAt: number }\<close>
  \<^verbatim>\<open>class CacheService<K extends string, V> { cache: Map<K, CacheEntry<V>>; order: K[]; ttlMs; maxSize }\<close>

  \<open>cache\<close> is the JavaScript \<open>Map\<close>, \<open>order\<close> the array of keys with the oldest key
  first. \<open>maxSize\<close> is a JavaScript number that the constructor takes as it comes, so
  it is an \<open>int\<close> here: zero and negative sizes can be constructed. Sizes that are not
  whole numbers are outside the model.
\<close>

record 'v CacheEntry =
  entry_value :: 'v
  expiresAt :: int

record 'v CacheService =
  cache :: "string \<rightharpoonup> 'v CacheEntry"
  order :: "string list"
  ttlMs :: int
  maxSize :: int

definition new_CacheService :: "int \<Rightarrow> int \<Rightarrow> 'v CacheService" where
  "new_CacheService ttl m = \<lparr>cache = Map.empty, order = [], ttlMs = ttl, maxSize = m\<rparr>"

text \<open>
  \<^verbatim>\<open>delete(key)\<close>: \<open>Map.delete\<close> answers whether the key was there; only then is the
  key spliced out of \<open>order\<close> (\<open>indexOf\<close> and \<open>splice(idx, 1)\<close> remove the first
  occurrence, which is \<open>remove1\<close>).
\<close>

definition CacheService_delete :: "string \<Rightarrow> 'v CacheService \<Rightarrow> bool \<times> 'v CacheService" where
  "CacheService_delete key s =
     (case cache s key of
        None \<Rightarrow> (False, s)
      | Some _ \<Rightarrow> (True, s\<lparr>cache := (cache s)(key := None), order := remove1 key (order s)\<rparr>))"

text \<open>
  \<^verbatim>\<open>get(key)\<close>: absent when there is no entry; an entry whose \<open>expiresAt\<close> is
  strictly before the clock is deleted and reported absent; otherwise the value is
  returned and nothing is written.
\<close>

definition CacheService_get :: "int \<Rightarrow> string \<Rightarrow> 'v CacheService \<Rightarrow> 'v option \<times> 'v CacheService" where
  "CacheService_get now key s =
     (case cache s key of
        None \<Rightarrow> (None, s)
      | Some entry \<Rightarrow>
          if expiresAt entry < now then (None, snd (CacheService_delete key s))
          else (Some (entry_value entry), s))"

text \<open>
  \<^verbatim>\<open>set(key, value)\<close>: when the key is new and \<open>order.length >= maxSize\<close>, the first
  key of \<open>order\<close> is shifted out and deleted from the map (\<open>shift()\<close> on an empty array
  gives \<open>undefined\<close> and nothing is deleted). Then the entry is written with
  \<open>expiresAt = now + ttlMs\<close>, and the key is moved to the end of \<open>order\<close>.
\<close>

definition CacheService_set :: "int \<Rightarrow> string \<Rightarrow> 'v \<Rightarrow> 'v CacheService \<Rightarrow> 'v CacheService" where
  "CacheService_set now key v s =
     (let s1 = (if cache s key = None \<and> maxSize s \<le> int (length (order s))
                then (case order s of
                        [] \<Rightarrow> s
                      | oldest # rest \<Rightarrow> s\<lparr>cache := (cache s)(oldest := None), order := rest\<rparr>)
                else s);
          s2 = s1\<lparr>cache := (cache s1)(key \<mapsto> \<lparr>entry_value = v, expiresAt = now + ttlMs s1\<rparr>)\<rparr>
      in s2\<lparr>order := remove1 key (order s2) @ [key]\<rparr>)"

text \<open>The number of stored entries, \<open>Map.size\<close>.\<close>

definition cache_size :: "'v CacheService \<Rightarrow> nat" where
  "cache_size s = card (dom (cache s))"

text \<open>Operations of the class, each with the clock reading it makes (none for delete).\<close>

datatype 'v cache_op = Get int string | Set int string 'v | Delete string

fun apply_cache_op :: "'v CacheService \<Rightarrow> 'v cache_op \<Rightarrow> 'v CacheService" where
  "apply_cache_op s (Get now key) = snd (CacheService_get now key s)"
| "apply_cache_op s (Set now key v) = CacheService_set now key v s"
| "apply_cache_op s (Delete key) = snd (CacheService_delete key s)"

definition run_cache_ops :: "'v CacheService \<Rightarrow> 'v cache_op list \<Rightarrow> 'v CacheService" where
  "run_cache_ops s ops = foldl apply_cache_op s ops"

text \<open>A run of insertions, given as (clock, key, value) triples.\<close>

fun key_of :: "int \<times> string \<times> 'v \<Rightarrow> string" where
  "key_of (now, key, v) = key"

definition inserts :: "(int \<times> string \<times> 'v) list \<Rightarrow> 'v cache_op list" where
  "inserts kvs = map (\<lambda>(now, key, v). Set now key v) kvs"

text \<open>
  The representation invariant of the class: \<open>order\<close> lists the keys of the map, each
  once. With it, \<open>order.length\<close> is the number of entries.
\<close>

definition cache_inv :: "'v CacheService \<Rightarrow> bool" where
  "cache_inv s \<longleftrightarrow> distinct (order s) \<and> set (order s) = dom (cache s)"

definition cache_ok :: "'v CacheService \<Rightarrow> bool" where
  "cache_ok s \<longleftrightarrow> cache_inv s \<and> int (length (order s)) \<le> maxSize s"

section \<open>The pipeline engine (workflow/Workflow.ts)\<close>

text \<open>
  A task is a name and an asynchronous \<open>run\<close>. JavaScript runs one thing at a time:
  the callback of a timer can run only while nothing else does, that is, while the
  code that is under way is suspended on an event from outside (the network, another
  timer). Synchronous code, and the promise continuations that follow it without
  such an event in between, run to their end first. So a promise is modelled by how
  it gets to its result and by the result: the stretches of its execution, each
  either \<open>Busy d\<close>, \<open>d\<close> milliseconds of code that runs without a break, or \<open>Wait d\<close>,
  \<open>d\<close> milliseconds suspended on an outside event (\<open>Wait 0\<close> is an \<open>await\<close> that the
  next continuation resumes at once); and either the value thrown or the value
  returned.
\<close>

datatype segment = is_Busy: Busy nat | Wait nat

type_synonym 'c settled = "segment list \<times> (thrown + 'c)"

record 'c Task =
  name :: string
  run :: "'c \<Rightarrow> 'c settled"

text \<open>
  \<^verbatim>\<open>pPipe(...runners)\<close> (the p-pipe package) throws when given no function;
  otherwise it returns the function that awaits the given ones one after the other,
  each on the value of the one before, and rejects with the first rejection. Each
  \<open>await\<close> of its loop is a suspension of its own, after the function's execution.
\<close>

fun pPipe_from :: "('c \<Rightarrow> 'c settled) list \<Rightarrow> 'c \<Rightarrow> 'c settled" where
  "pPipe_from [] current = ([], Inr current)"
| "pPipe_from (f # fs) current =
     (case f current of
        (stretches, Inl err) \<Rightarrow> (stretches @ [Wait 0], Inl err)
      | (stretches, Inr next) \<Rightarrow>
          (case pPipe_from fs next of (later, r) \<Rightarrow> (stretches @ Wait 0 # later, r)))"

definition pPipe :: "('c \<Rightarrow> 'c settled) list \<Rightarrow> thrown + ('c \<Rightarrow> 'c settled)" where
  "pPipe functions =
     (if functions = [] then Inl (JsError ''Error'' ''Expected at least one argument'')
      else Inr (pPipe_from functions))"

text \<open>
  Whether a timer that comes due in \<open>remaining\<close> milliseconds gets to run its callback
  before an execution ends. Time passes in a busy stretch, but the callback cannot
  run in it. In a wait the callback runs when the timer comes due, or at once when it
  is overdue, provided the wait lasts beyond that moment; an event and a timer that
  are due at the same instant are taken in favour of the event. When the execution
  ends first, the callback never runs against it.
\<close>

fun timer_fires :: "nat \<Rightarrow> segment list \<Rightarrow> bool" where
  "timer_fires remaining [] = False"
| "timer_fires remaining (Busy d # later) = timer_fires (remaining - d) later"
| "timer_fires remaining (Wait d # later) = (remaining < d \<or> timer_fires (remaining - d) later)"

text \<open>
  \<^verbatim>\<open>pTimeout(promise, { milliseconds })\<close> (the p-timeout package) rejects with a
  \<open>TypeError\<close> when the milliseconds are not a positive number. Otherwise it arms a
  timer, whose callback rejects with the package's \<open>TimeoutError\<close>, an \<open>Error\<close> whose
  message quotes the milliseconds; and it settles as the promise does when the
  promise settles before that callback runs. Its first argument here is the promise
  as it stands when the timer is armed: the stretches still to come.
\<close>

definition timeout_message :: "nat \<Rightarrow> string" where
  "timeout_message ms = ''Promise timed out after '' @ show_nat ms @ '' milliseconds''"

definition not_positive_message :: "nat \<Rightarrow> string" where
  "not_positive_message ms =
     ''Expected `milliseconds` to be a positive number, got `'' @ show_nat ms @ ''`''"

definition pTimeout :: "'c settled \<Rightarrow> nat \<Rightarrow> thrown + 'c" where
  "pTimeout promise milliseconds =
     (if milliseconds = 0 then Inl (JsError ''TypeError'' (not_positive_message milliseconds))
      else if timer_fires milliseconds (fst promise)
      then Inl (JsError ''TimeoutError'' (timeout_message milliseconds))
      else snd promise)"

text \<open>
  \<^verbatim>\<open>Workflow.run(initial, options?)\<close>; \<open>options\<close> is the optional \<open>timeoutMs\<close>, a
  whole number of milliseconds here. The call \<open>pipeline(initial)\<close> runs the chain up
  to its first suspension before it returns the promise, so the busy stretches at the
  front are over when \<open>pTimeout\<close> arms its timer.
\<close>

definition Workflow_run :: "'c Task list \<Rightarrow> 'c \<Rightarrow> nat option \<Rightarrow> thrown + 'c" where
  "Workflow_run tasks initial options =
     (let runners = map run tasks
      in case pPipe runners of
           Inl err \<Rightarrow> Inl err
         | Inr pipeline \<Rightarrow>
             (let promise = pipeline initial
              in case options of
                   Some ms \<Rightarrow> pTimeout (dropWhile is_Busy (fst promise), snd promise) ms
                 | None \<Rightarrow> snd promise))"

text \<open>
  What is still to come of the chain when the deadline's timer is armed.
\<close>

definition pending_chain :: "'c Task list \<Rightarrow> 'c \<Rightarrow> segment list" where
  "pending_chain tasks initial = dropWhile is_Busy (fst (pPipe_from (map run tasks) initial))"

text \<open>How long an execution takes.\<close>

fun duration :: "segment list \<Rightarrow> nat" where
  "duration [] = 0"
| "duration (Busy d # later) = d + duration later"
| "duration (Wait d # later) = d + duration later"

section \<open>The stage transitions (workflows/crawl/tasks)\<close>

text \<open>
  \<^verbatim>\<open>fetch\<close> answers an attempt with a rejection or with a response; a response has a
  status, a status text, and a body whose reading may itself reject.
\<close>

record Response =
  status :: nat
  statusText :: string
  body_text :: "thrown + string"

definition ok :: "Response \<Rightarrow> bool" where
  "ok response \<longleftrightarrow> 200 \<le> status response \<and> status response \<le> 299"

datatype 'a attempt = Rejects thrown | Resolves 'a

text \<open>
  \<^verbatim>\<open>pRetry(input, { retries })\<close> (the p-retry package): the input is called with the
  attempt number, starting at 1; a resolved value is returned at once; a rejection is
  tried again while retries are left and the package takes the error for one worth a
  retry (\<open>shouldRetry\<close>), and is rethrown otherwise. The first component of the result
  is the number of the last attempt made, which is how often the input was called when
  the first attempt has number 1.
\<close>

fun pRetry :: "(thrown \<Rightarrow> bool) \<Rightarrow> nat \<Rightarrow> (nat \<Rightarrow> 'a attempt) \<Rightarrow> nat \<Rightarrow> nat \<times> (thrown + 'a)" where
  "pRetry shouldRetry 0 input attemptNumber =
     (case input attemptNumber of
        Resolves v \<Rightarrow> (attemptNumber, Inr v)
      | Rejects err \<Rightarrow> (attemptNumber, Inl err))"
| "pRetry shouldRetry (Suc retriesLeft) input attemptNumber =
     (case input attemptNumber of
        Resolves v \<Rightarrow> (attemptNumber, Inr v)
      | Rejects err \<Rightarrow>
          if shouldRetry err then pRetry shouldRetry retriesLeft input (Suc attemptNumber)
          else (attemptNumber, Inl err))"

text \<open>
  What the tasks call but do not define: the network, p-retry's classification of a
  rejection, the regular-expression scan for a title, the cheerio and turndown
  transformations, and how long things take. All are parameters; the
  transformations may throw. \<open>fetching\<close> is the execution of the fetch task, with its
  waits on the network and between retries; \<open>elapsed\<close> is the time that a task without
  any \<open>await\<close> takes.
\<close>

record Collaborators =
  fetch :: "jsval \<Rightarrow> nat \<Rightarrow> Response attempt"
  retryable :: "thrown \<Rightarrow> bool"
  titleMatch :: "string \<Rightarrow> string option"
  extractTags :: "jsval \<Rightarrow> jsval \<Rightarrow> thrown + Metadata"
  selectContent :: "jsval \<Rightarrow> thrown + string"
  stripMarkup :: "jsval \<Rightarrow> thrown + string"
  turndown :: "jsval \<Rightarrow> thrown + string"
  fetching :: "CrawlContext \<Rightarrow> segment list"
  elapsed :: "string \<Rightarrow> CrawlContext \<Rightarrow> nat"

definition RETRIES :: nat where
  "RETRIES = 2"

definition fetch_failed_message :: "Response \<Rightarrow> string" where
  "fetch_failed_message response =
     ''Fetch failed: '' @ show_nat (status response) @ '' '' @ statusText response"

text \<open>
  \<^verbatim>\<open>fetchHtmlTask\<close> (tasks/fetchHtml.ts). Only the call of \<open>fetch\<close> is inside
  \<open>pRetry\<close>; the test of \<open>response.ok\<close> comes after it and throws a plain \<open>Error\<close>. The
  result context is a fresh object literal. The first component of the result counts
  the calls of \<open>fetch\<close>.
\<close>

definition fetchHtmlTask :: "Collaborators \<Rightarrow> CrawlContext \<Rightarrow> nat \<times> (thrown + CrawlContext)" where
  "fetchHtmlTask env ctx =
     (case pRetry (retryable env) RETRIES (fetch env (field_of ctx ''url'')) 1 of
        (calls, Inl err) \<Rightarrow> (calls, Inl err)
      | (calls, Inr response) \<Rightarrow>
          if \<not> ok response then (calls, Inl (JsError ''Error'' (fetch_failed_message response)))
          else (case body_text response of
                  Inl err \<Rightarrow> (calls, Inl err)
                | Inr html \<Rightarrow>
                    (calls, Inr [''stage'' \<mapsto> Str ''fetched'',
                                 ''url'' \<mapsto> field_of ctx ''url'',
                                 ''html'' \<mapsto> Str html,
                                 ''title'' \<mapsto> (case titleMatch env html of
                                                  None \<Rightarrow> Undefined
                                                | Some t \<Rightarrow> Str t)])))"

text \<open>
  The four later tasks return \<^verbatim>\<open>{ ...ctx, stage: '...', <field> }\<close>: every own
  property of the input, then the new stage and the one new property.
\<close>

definition extractMetadataTask :: "Collaborators \<Rightarrow> CrawlContext \<Rightarrow> thrown + CrawlContext" where
  "extractMetadataTask env ctx =
     (case extractTags env (field_of ctx ''html'') (field_of ctx ''title'') of
        Inl err \<Rightarrow> Inl err
      | Inr tags \<Rightarrow> Inr (ctx(''stage'' \<mapsto> Str ''metadata_extracted'', ''metadata'' \<mapsto> Meta tags)))"

definition parseDocumentTask :: "Collaborators \<Rightarrow> CrawlContext \<Rightarrow> thrown + CrawlContext" where
  "parseDocumentTask env ctx =
     (case selectContent env (field_of ctx ''html'') of
        Inl err \<Rightarrow> Inl err
      | Inr document \<Rightarrow> Inr (ctx(''stage'' \<mapsto> Str ''parsed'', ''document'' \<mapsto> Str document)))"

definition cleanDocumentTask :: "Collaborators \<Rightarrow> CrawlContext \<Rightarrow> thrown + CrawlContext" where
  "cleanDocumentTask env ctx =
     (case stripMarkup env (field_of ctx ''document'') of
        Inl err \<Rightarrow> Inl err
      | Inr cleanedDocument \<Rightarrow>
          Inr (ctx(''stage'' \<mapsto> Str ''cleaned'', ''cleanedDocument'' \<mapsto> Str cleanedDocument)))"

definition convertToMarkdownTask :: "Collaborators \<Rightarrow> CrawlContext \<Rightarrow> thrown + CrawlContext" where
  "convertToMarkdownTask env ctx =
     (case turndown env (field_of ctx ''cleanedDocument'') of
        Inl err \<Rightarrow> Inl err
      | Inr md \<Rightarrow> Inr (ctx(''stage'' \<mapsto> Str ''completed'', ''markdown'' \<mapsto> Str md)))"

text \<open>
  \<^verbatim>\<open>createCrawlWorkflow()\<close>: the five tasks in order, under the names of
  \<^verbatim>\<open>TASK_NAMES\<close>. Only \<open>fetchHtmlTask\<close> awaits anything; the bodies of the other
  four contain no \<open>await\<close>, so each of them is one busy stretch.
\<close>

definition as_task :: "Collaborators \<Rightarrow> string \<Rightarrow> (CrawlContext \<Rightarrow> thrown + CrawlContext) \<Rightarrow> CrawlContext Task" where
  "as_task env task_name body =
     \<lparr>name = task_name, run = (\<lambda>ctx. ([Busy (elapsed env task_name ctx)], body ctx))\<rparr>"

definition createCrawlWorkflow :: "Collaborators \<Rightarrow> CrawlContext Task list" where
  "createCrawlWorkflow env =
     [\<lparr>name = ''fetch_html'', run = (\<lambda>ctx. (fetching env ctx, snd (fetchHtmlTask env ctx)))\<rparr>,
      as_task env ''extract_metadata'' (extractMetadataTask env),
      as_task env ''parse_document'' (parseDocumentTask env),
      as_task env ''clean_document'' (cleanDocumentTask env),
      as_task env ''convert_to_markdown'' (convertToMarkdownTask env)]"

text \<open>
  The variants of \<^verbatim>\<open>CrawlContext\<close> that the pipeline passes through
  (types.ts, lines 55 to 103): the value of \<open>stage\<close>, the properties each variant
  requires, and the optional \<open>title\<close>. The fields of a context are its own properties
  other than the discriminant.
\<close>

datatype Stage = Initial | Fetched | MetadataExtracted | Parsed | Cleaned | Completed

fun stage_tag :: "Stage \<Rightarrow> string" where
  "stage_tag Initial = ''initial''"
| "stage_tag Fetched = ''fetched''"
| "stage_tag MetadataExtracted = ''metadata_extracted''"
| "stage_tag Parsed = ''parsed''"
| "stage_tag Cleaned = ''cleaned''"
| "stage_tag Completed = ''completed''"

fun required_fields :: "Stage \<Rightarrow> string set" where
  "required_fields Initial = {''url''}"
| "required_fields Fetched = {''url'', ''html''}"
| "required_fields MetadataExtracted = {''url'', ''html'', ''metadata''}"
| "required_fields Parsed = {''url'', ''html'', ''metadata'', ''document''}"
| "required_fields Cleaned = {''url'', ''html'', ''metadata'', ''document'', ''cleanedDocument''}"
| "required_fields Completed =
     {''url'', ''html'', ''metadata'', ''document'', ''cleanedDocument'', ''markdown''}"

fun optional_fields :: "Stage \<Rightarrow> string set" where
  "optional_fields Initial = {}"
| "optional_fields _ = {''title''}"

definition field_names :: "CrawlContext \<Rightarrow> string set" where
  "field_names ctx = dom ctx - {''stage''}"

definition has_variant :: "Stage \<Rightarrow> CrawlContext \<Rightarrow> bool" where
  "has_variant st ctx \<longleftrightarrow>
     ctx ''stage'' = Some (Str (stage_tag st)) \<and>
     required_fields st \<subseteq> field_names ctx \<and>
     field_names ctx \<subseteq> required_fields st \<union> optional_fields st"

definition stage_order :: "Stage list" where
  "stage_order = [Initial, Fetched, MetadataExtracted, Parsed, Cleaned, Completed]"

section \<open>The services (services/CrawlService.ts, services/CachedCrawlService.ts)\<close>

definition isCompleted :: "CrawlContext \<Rightarrow> bool" where
  "isCompleted ctx \<longleftrightarrow> field_of ctx ''stage'' = Str ''completed''"

definition removeUndefined :: "Metadata \<Rightarrow> Metadata" where
  "removeUndefined obj = filter (\<lambda>entry. snd entry \<noteq> None) obj"

definition DEFAULT_TIMEOUT_MS :: nat where
  "DEFAULT_TIMEOUT_MS = 30000"

record CrawlService =
  workflow :: "CrawlContext Task list"
  timeoutMs :: nat

definition initial_context :: "string \<Rightarrow> CrawlContext" where
  "initial_context url = [''stage'' \<mapsto> Str ''initial'', ''url'' \<mapsto> Str url]"

text \<open>
  The \<open>catch\<close> of \<^verbatim>\<open>crawlUrl\<close>:
  \<^verbatim>\<open>err instanceof Error ? err.message : 'Unknown error'\<close>.
\<close>

definition caught_message :: "thrown \<Rightarrow> string" where
  "caught_message err = (case err of JsError _ message \<Rightarrow> message | _ \<Rightarrow> ''Unknown error'')"

text \<open>
  \<^verbatim>\<open>CrawlService.crawlUrl(url)\<close>. Everything is inside one \<open>try\<close>: whatever the
  workflow throws becomes a failure of variant \<open>unknown\<close>. A completed context gives the
  payload; the log call reads \<open>ctx.markdown.length\<close>, which throws a \<open>TypeError\<close> inside
  the same \<open>try\<close> when \<open>markdown\<close> is \<open>undefined\<close> (the wording of that message is the
  engine's). A truthy \<open>metadata\<close> goes through \<open>removeUndefined\<close>; the types make it
  a metadata object when it is there.
\<close>

definition CrawlService_crawlUrl :: "CrawlService \<Rightarrow> string \<Rightarrow> CrawlResult" where
  "CrawlService_crawlUrl svc url =
     (case Workflow_run (workflow svc) (initial_context url) (Some (timeoutMs svc)) of
        Inr ctx \<Rightarrow>
          if isCompleted ctx then
            (case field_of ctx ''markdown'' of
               Undefined \<Rightarrow>
                 Failure (unknown ''Cannot read properties of undefined (reading length)''
                   (Some (JsError ''TypeError'' ''Cannot read properties of undefined (reading length)'')))
             | md \<Rightarrow>
                 Success \<lparr>markdown = md,
                          title = field_of ctx ''title'',
                          metadata = (case field_of ctx ''metadata'' of
                                        Meta m \<Rightarrow> Meta (removeUndefined m)
                                      | _ \<Rightarrow> Undefined)\<rparr>)
          else Failure (unknown ''Workflow incomplete'' None)
      | Inl err \<Rightarrow> Failure (unknown (caught_message err) (Some err)))"

text \<open>
  \<^verbatim>\<open>CachedCrawlService.crawlUrl(url)\<close>: the cache is read at one clock reading
  and, after the crawl, written at a later one. A cached payload is an object, hence
  truthy.
\<close>

record CachedCrawlService =
  crawl_cache :: "CrawlResultData CacheService"
  crawlService :: CrawlService

definition CachedCrawlService_crawlUrl ::
  "int \<Rightarrow> int \<Rightarrow> string \<Rightarrow> CachedCrawlService \<Rightarrow> CrawlResult \<times> CachedCrawlService" where
  "CachedCrawlService_crawlUrl now_get now_set url svc =
     (case CacheService_get now_get url (crawl_cache svc) of
        (Some cached, c) \<Rightarrow> (Success cached, svc\<lparr>crawl_cache := c\<rparr>)
      | (None, c) \<Rightarrow>
          (case CrawlService_crawlUrl (crawlService svc) url of
             Success d \<Rightarrow> (Success d, svc\<lparr>crawl_cache := CacheService_set now_set url d c\<rparr>)
           | Failure e \<Rightarrow> (Failure e, svc\<lparr>crawl_cache := c\<rparr>)))"

text \<open>Whether a run of the workflow ended in a completed context.\<close>

definition run_completed :: "thrown + CrawlContext \<Rightarrow> bool" where
  "run_completed outcome = (case outcome of Inr ctx \<Rightarrow> isCompleted ctx | Inl _ \<Rightarrow> False)"

section \<open>The HTTP boundary (lib/errors.ts, src/index.ts)\<close>



section \<open>Concrete inputs\<close>

text \<open>
  A one-task workflow whose task waits 50 ms on an outside event, run under a deadline
  of 10 ms.
\<close>

definition slow_task :: "CrawlContext Task" where
  "slow_task = \<lparr>name = ''fetch_html'', run = (\<lambda>ctx. ([Wait 50], Inr ctx))\<rparr>"

definition slow_service :: CrawlService where
  "slow_service = \<lparr>workflow = [slow_task], timeoutMs = 10\<rparr>"

definition timing_out_service :: CachedCrawlService where
  "timing_out_service = \<lparr>crawl_cache = new_CacheService 300000 100, crawlService = slow_service\<rparr>"

text \<open>
  A network that answers every attempt with the same response after 5 ms, with
  transformations that take \<open>render_ms\<close> milliseconds to render and 1 ms otherwise.
\<close>

definition not_found :: Response where
  "not_found = \<lparr>status = 404, statusText = ''Not Found'', body_text = Inr ''gone''\<rparr>"

definition page :: Response where
  "page = \<lparr>status = 200, statusText = ''OK'', body_text = Inr ''<p>Hi</p>''\<rparr>"

definition timed_env :: "nat \<Rightarrow> Response \<Rightarrow> Collaborators" where
  "timed_env render_ms response =
     \<lparr>fetch = (\<lambda>url attemptNumber. Resolves response),
      retryable = (\<lambda>err. True),
      titleMatch = (\<lambda>html. None),
      extractTags = (\<lambda>html fallback. Inr []),
      selectContent = (\<lambda>html. Inr ''<p>Hi</p>''),
      stripMarkup = (\<lambda>document. Inr ''<p>Hi</p>''),
      turndown = (\<lambda>cleaned. Inr ''Hi''),
      fetching = (\<lambda>ctx. [Busy 1, Wait 5, Busy 1]),
      elapsed = (\<lambda>task_name ctx. if task_name = ''convert_to_markdown'' then render_ms else 1)\<rparr>"

definition stub_env :: "Response \<Rightarrow> Collaborators" where
  "stub_env response = timed_env 1 response"

text \<open>
  The crawl workflow on a page that takes 50 ms to render, under a deadline of 10 ms.
\<close>

definition slow_render_service :: CrawlService where
  "slow_render_service = \<lparr>workflow = createCrawlWorkflow (timed_env 50 page), timeoutMs = 10\<rparr>"

definition not_found_service :: CrawlService where
  "not_found_service =
     \<lparr>workflow = createCrawlWorkflow (stub_env not_found), timeoutMs = DEFAULT_TIMEOUT_MS\<rparr>"


definition page_service :: CrawlService where
  "page_service = \<lparr>workflow = createCrawlWorkflow (stub_env page), timeoutMs = DEFAULT_TIMEOUT_MS\<rparr>"

definition parsed_example :: CrawlContext where
  "parsed_example =
     [''stage'' \<mapsto> Str ''parsed'', ''url'' \<mapsto> Str ''https://example.com'',
      ''html'' \<mapsto> Str ''<body><p>Hi</p></body>'', ''title'' \<mapsto> Undefined,
      ''metadata'' \<mapsto> Meta [], ''document'' \<mapsto> Str ''<p>Hi</p>'']"

definition cleaned_example :: CrawlContext where
  "cleaned_example = parsed_example(''stage'' \<mapsto> Str ''cleaned'', ''cleanedDocument'' \<mapsto> Str ''<p>Hi</p>'')"

text \<open>A cache of capacity two holding \<open>a\<close> (older) and \<open>b\<close> (newer).\<close>

definition two_entries :: "string CacheService" where
  "two_entries = run_cache_ops (new_CacheService 1000 2) [Set 0 ''a'' ''A'', Set 1 ''b'' ''B'']"

section \<open>Lemmas about the rate limiter\<close>

lemma checkLimit_alt:
  "checkLimit now i n w rl =
     (if int (length (recent_of now w (history rl i))) < n
      then (True, rl\<lparr>requests := (requests rl)(i \<mapsto> recent_of now w (history rl i) @ [now])\<rparr>)
      else (False, rl))"
  by (simp add: checkLimit_def history_def recent_of_def Let_def)

lemma history_after:
  "history (snd (checkLimit now i n w rl)) i =
     (if int (length (recent_of now w (history rl i))) < n
      then recent_of now w (history rl i) @ [now] else history rl i)"
  by (simp add: checkLimit_alt) (simp add: history_def)

lemma history_len_inv:
  "int (length (history rl i)) \<le> n \<or> history rl i = [] \<Longrightarrow>
   int (length (history (snd (checkLimit now i n w rl)) i)) \<le> n \<or>
   history (snd (checkLimit now i n w rl)) i = []"
  by (auto simp: history_after)

lemma checkAll_len_inv:
  "int (length (history rl i)) \<le> n \<or> history rl i = [] \<Longrightarrow>
   int (length (history (snd (checkAll ts i n w rl)) i)) \<le> n \<or>
   history (snd (checkAll ts i n w rl)) i = []"
proof (induction ts arbitrary: rl)
  case Nil
  then show ?case by simp
next
  case (Cons t ts)
  from history_len_inv [OF Cons.prems, of t w]
  have "int (length (history (snd (checkLimit t i n w rl)) i)) \<le> n \<or>
        history (snd (checkLimit t i n w rl)) i = []" .
  from Cons.IH [OF this] show ?case
    by (simp add: split_def Let_def)
qed

lemma allowed_after_window:
  assumes "h \<noteq> []" "int (length h) \<le> n" "w \<le> now - Min (set h)" "history rl i = h"
  shows "fst (checkLimit now i n w rl)"
proof -
  have "Min (set h) \<in> set h" using assms(1) by simp
  moreover have "\<not> now - Min (set h) < w" using assms(3) by simp
  ultimately have "length (recent_of now w h) < length h"
    unfolding recent_of_def by (rule length_filter_less)
  with assms(2,4) show ?thesis by (simp add: checkLimit_alt)
qed

lemma burst_answers:
  "\<forall>t\<in>set ts. \<forall>u\<in>set (history rl i) \<union> set ts. t - u < w \<Longrightarrow>
   fst (checkAll ts i n w rl) =
     map (\<lambda>j. int (length (history rl i) + j) < n) [0..<length ts]"
proof (induction ts arbitrary: rl)
  case Nil
  then show ?case by simp
next
  case (Cons t ts)
  let ?rl = "snd (checkLimit t i n w rl)"
  have keep: "recent_of t w (history rl i) = history rl i"
    using Cons.prems by (simp add: recent_of_def)
  have hist: "history ?rl i = (if int (length (history rl i)) < n then history rl i @ [t] else history rl i)"
    by (simp add: history_after keep)
  have "\<forall>t'\<in>set ts. \<forall>u\<in>set (history ?rl i) \<union> set ts. t' - u < w"
    using Cons.prems hist by auto
  from Cons.IH [OF this]
  have rest: "fst (checkAll ts i n w ?rl) =
     map (\<lambda>j. int (length (history ?rl i) + j) < n) [0..<length ts]" .
  have first: "fst (checkLimit t i n w rl) = (int (length (history rl i)) < n)"
    by (simp add: checkLimit_alt keep)
  have "map (\<lambda>j. int (length (history ?rl i) + j) < n) [0..<length ts]
        = map (\<lambda>j. int (length (history rl i) + Suc j) < n) [0..<length ts]"
    using hist by (auto simp: algebra_simps)
  also have "\<dots> = map (\<lambda>j. int (length (history rl i) + j) < n) (map Suc [0..<length ts])"
    by (simp add: comp_def algebra_simps)
  finally have "fst (checkAll ts i n w ?rl)
       = map (\<lambda>j. int (length (history rl i) + j) < n) (map Suc [0..<length ts])"
    using rest by simp
  moreover have "[0..<length (t # ts)] = 0 # map Suc [0..<length ts]"
    by (simp add: upt_conv_Cons map_Suc_upt del: upt_Suc)
  ultimately show ?case using first
    by (simp add: split_def Let_def del: upt_Suc)
qed

lemma burst_from_empty:
  assumes "requests rl i = None" "0 \<le> n" "length ts = nat n + 1"
    "\<forall>t\<in>set ts. \<forall>u\<in>set ts. t - u < w"
  shows "fst (checkAll ts i n w rl) = replicate (nat n) True @ [False]"
proof -
  have h: "history rl i = []" using assms(1) by (simp add: history_def)
  have "fst (checkAll ts i n w rl) = map (\<lambda>j. int j < n) [0..<length ts]"
    using burst_answers [of ts rl i w n] assms(4) h by simp
  also have "\<dots> = map (\<lambda>j. int j < n) [0..<nat n] @ [False]"
    using assms(2,3) by simp
  also have "map (\<lambda>j. int j < n) [0..<nat n] = replicate (nat n) True"
    using assms(2) by (auto simp: list_eq_iff_nth_eq)
  finally show ?thesis .
qed

section \<open>Lemmas about the cache\<close>

lemma set_get:
  "now' \<le> now + ttlMs s \<Longrightarrow>
     CacheService_get now' k (CacheService_set now k v s) = (Some v, CacheService_set now k v s)"
  by (auto simp: CacheService_get_def CacheService_set_def Let_def split: list.splits)

lemma set_get_expired:
  "now + ttlMs s < now' \<Longrightarrow>
     fst (CacheService_get now' k (CacheService_set now k v s)) = None \<and>
     cache (snd (CacheService_get now' k (CacheService_set now k v s))) k = None"
  by (auto simp: CacheService_get_def CacheService_set_def CacheService_delete_def Let_def split: list.splits)

lemma remove1_snoc_self: "k \<notin> set xs \<Longrightarrow> remove1 k (xs @ [k]) = xs"
  by (induction xs) auto

lemma set_get_expired_order:
  assumes "distinct (order s)" "now + ttlMs s < now'"
  shows "k \<notin> set (order (snd (CacheService_get now' k (CacheService_set now k v s))))"
proof -
  let ?s' = "CacheService_set now k v s"
  obtain xs where o: "order ?s' = remove1 k xs @ [k]" and d: "distinct xs"
    using assms(1)
    by (cases "order s") (auto simp: CacheService_set_def Let_def)
  have nk: "k \<notin> set (remove1 k xs)" using d by simp
  have e: "\<exists>entry. cache ?s' k = Some entry \<and> expiresAt entry = now + ttlMs s"
    by (auto simp: CacheService_set_def Let_def split: list.splits)
  then show ?thesis
    using assms(2) o nk
    by (auto simp: CacheService_get_def CacheService_delete_def remove1_snoc_self)
qed

lemma get_hit_unchanged:
  "CacheService_get now k s = (Some v, s') \<Longrightarrow> s' = s"
  by (auto simp: CacheService_get_def split: option.splits if_splits)

lemma get_miss_no_entry:
  "CacheService_get now key s = (None, s') \<Longrightarrow> cache s' key = None"
  by (auto simp: CacheService_get_def CacheService_delete_def split: option.splits if_splits)

lemma inv_delete: "cache_inv s \<Longrightarrow> cache_inv (snd (CacheService_delete k s))"
  by (auto simp: cache_inv_def CacheService_delete_def split: option.splits)

lemma inv_get: "cache_inv s \<Longrightarrow> cache_inv (snd (CacheService_get now k s))"
  by (auto simp: CacheService_get_def inv_delete split: option.splits)

lemma inv_set: "cache_inv s \<Longrightarrow> cache_inv (CacheService_set now k v s)"
  by (auto simp: cache_inv_def CacheService_set_def Let_def split: list.splits)

lemma size_eq: "cache_inv s \<Longrightarrow> cache_size s = length (order s)"
  by (metis cache_inv_def cache_size_def distinct_card)

lemma len_set:
  "cache_inv s \<Longrightarrow> 1 \<le> maxSize s \<Longrightarrow> int (length (order s)) \<le> maxSize s \<Longrightarrow>
   int (length (order (CacheService_set now k v s))) \<le> maxSize s"
  by (auto simp: cache_inv_def CacheService_set_def Let_def length_remove1 split: list.splits)

lemma maxSize_delete [simp]: "maxSize (snd (CacheService_delete k s)) = maxSize s"
  by (simp add: CacheService_delete_def split: option.splits)

lemma maxSize_get [simp]: "maxSize (snd (CacheService_get now k s)) = maxSize s"
  by (simp add: CacheService_get_def split: option.splits)

lemma maxSize_set [simp]: "maxSize (CacheService_set now k v s) = maxSize s"
  by (simp add: CacheService_set_def Let_def split: list.splits)

lemma maxSize_op [simp]: "maxSize (apply_cache_op s op) = maxSize s"
  by (cases op) simp_all

lemma len_delete: "length (order (snd (CacheService_delete k s))) \<le> length (order s)"
  by (simp add: CacheService_delete_def length_remove1 split: option.splits)

lemma len_get: "length (order (snd (CacheService_get now k s))) \<le> length (order s)"
  by (simp add: CacheService_get_def len_delete split: option.splits)

lemma ok_op: "1 \<le> maxSize s \<Longrightarrow> cache_ok s \<Longrightarrow> cache_ok (apply_cache_op s op)"
proof (cases op)
  case (Get now k)
  assume "cache_ok s"
  with Get len_get [of now k s] show ?thesis
    by (simp add: cache_ok_def inv_get)
next
  case (Set now k v)
  assume "1 \<le> maxSize s" "cache_ok s"
  with Set show ?thesis by (simp add: cache_ok_def inv_set len_set)
next
  case (Delete k)
  assume "cache_ok s"
  with Delete len_delete [of k s] show ?thesis
    by (simp add: cache_ok_def inv_delete)
qed

lemma ok_run: "1 \<le> maxSize s \<Longrightarrow> cache_ok s \<Longrightarrow> cache_ok (run_cache_ops s ops)"
  unfolding run_cache_ops_def
  by (induction ops arbitrary: s) (simp_all add: ok_op)

lemma ok_new: "0 \<le> m \<Longrightarrow> cache_ok (new_CacheService ttl m)"
  by (simp add: cache_ok_def cache_inv_def new_CacheService_def)

lemma size_bound:
  "1 \<le> m \<Longrightarrow> int (cache_size (run_cache_ops (new_CacheService ttl m) ops)) \<le> m"
proof -
  assume m: "1 \<le> m"
  let ?s = "run_cache_ops (new_CacheService ttl m) ops"
  have "cache_ok ?s" using m by (intro ok_run ok_new) (simp_all add: new_CacheService_def)
  moreover have "maxSize ?s = m"
    unfolding run_cache_ops_def
    by (induction ops rule: rev_induct) (simp_all add: new_CacheService_def)
  ultimately show ?thesis by (simp add: cache_ok_def size_eq)
qed

lemma order_inserts:
  "1 \<le> m \<Longrightarrow> distinct (map key_of kvs) \<Longrightarrow>
   (let s = run_cache_ops (new_CacheService ttl (int m)) (inserts kvs) in
    cache_inv s \<and> maxSize s = int m \<and>
    order s = drop (length kvs - m) (map key_of kvs))"
proof (induction kvs rule: rev_induct)
  case Nil
  then show ?case
    by (simp add: run_cache_ops_def inserts_def new_CacheService_def cache_inv_def)
next
  case (snoc x kvs)
  obtain now k v where x: "x = (now, k, v)" by (cases x) auto
  let ?s = "run_cache_ops (new_CacheService ttl (int m)) (inserts kvs)"
  let ?ks = "map key_of kvs"
  from snoc have inv: "cache_inv ?s" and ms: "maxSize ?s = int m"
    and ord: "order ?s = drop (length kvs - m) ?ks"
    by (simp_all add: Let_def)
  from snoc.prems x have knew: "k \<notin> set ?ks" by simp
  then have k_ord: "k \<notin> set (order ?s)" using ord by (auto dest: in_set_dropD)
  then have k_cache: "cache ?s k = None" using inv by (auto simp: cache_inv_def)
  have step: "run_cache_ops (new_CacheService ttl (int m)) (inserts (kvs @ [x]))
              = CacheService_set now k v ?s"
    by (simp add: run_cache_ops_def inserts_def x)
  have len: "length (order ?s) = min (length kvs) m" using ord by simp
  have "order (CacheService_set now k v ?s) = drop (length (kvs @ [x]) - m) (map key_of (kvs @ [x]))"
  proof (cases "m \<le> length kvs")
    case True
    then have ne: "order ?s \<noteq> []" using len snoc.prems(1) by auto
    then obtain o1 rest where o: "order ?s = o1 # rest" by (cases "order ?s") auto
    have rest: "rest = drop (Suc (length kvs) - m) ?ks"
      using o ord True
      by (metis Suc_diff_le drop_Suc list.sel(3) tl_drop)
    have "k \<notin> set rest" using k_ord o by simp
    then have "order (CacheService_set now k v ?s) = rest @ [k]"
      using True k_cache ms len o
      by (simp add: CacheService_set_def Let_def remove1_idem)
    also have "\<dots> = drop (length (kvs @ [x]) - m) (map key_of (kvs @ [x]))"
      using rest True x snoc.prems(1) by simp
    finally show ?thesis .
  next
    case False
    then have "order (CacheService_set now k v ?s) = order ?s @ [k]"
      using k_cache ms len k_ord
      by (simp add: CacheService_set_def Let_def remove1_idem)
    then show ?thesis using ord False x by simp
  qed
  with step inv_set [OF inv] ms show ?case by (simp add: Let_def)
qed

section \<open>Lemmas about the stages and the services\<close>

lemma field_names_upd:
  "f \<noteq> ''stage'' \<Longrightarrow> field_names (ctx(''stage'' \<mapsto> s, f \<mapsto> v)) = insert f (field_names ctx)"
  by (auto simp: field_names_def)

lemma spread_accumulates:
  assumes v: "has_variant st ctx"
    and fresh: "f \<notin> required_fields st \<union> optional_fields st" "f \<noteq> ''stage''"
    and out: "out = ctx(''stage'' \<mapsto> Str (stage_tag st'), f \<mapsto> v)"
    and nxt: "required_fields st' = insert f (required_fields st)"
      "optional_fields st' = optional_fields st"
  shows "field_names ctx \<subset> field_names out \<and> (\<forall>g\<in>field_names ctx. out g = ctx g) \<and>
         has_variant st' out"
proof -
  have fo: "field_names out = insert f (field_names ctx)"
    using out fresh(2) by (simp add: field_names_upd)
  have sub: "field_names ctx \<subseteq> required_fields st \<union> optional_fields st"
    and req: "required_fields st \<subseteq> field_names ctx"
    using v by (simp_all add: has_variant_def)
  have nf: "f \<notin> field_names ctx" using sub fresh(1) by blast
  have strict: "field_names ctx \<subset> field_names out" using fo nf by blast
  have same: "\<forall>g\<in>field_names ctx. out g = ctx g"
  proof
    fix g assume g: "g \<in> field_names ctx"
    then have "g \<noteq> f" using nf by blast
    moreover have "g \<noteq> ''stage''" using g by (simp add: field_names_def)
    ultimately show "out g = ctx g" using out by simp
  qed
  have tag: "out ''stage'' = Some (Str (stage_tag st'))" using out fresh(2) by simp
  have "has_variant st' out"
    unfolding has_variant_def using tag fo req sub nxt by blast
  with strict same show ?thesis by blast
qed

lemma pRetry_first_response:
  "start \<le> m \<Longrightarrow> m \<le> start + retries \<Longrightarrow>
   (\<forall>j. start \<le> j \<and> j < m \<longrightarrow> (\<exists>err. input j = Rejects err \<and> shouldRetry err)) \<Longrightarrow>
   input m = Resolves v \<Longrightarrow>
   pRetry shouldRetry retries input start = (m, Inr v)"
proof (induction retries arbitrary: start)
  case 0
  then show ?case by simp
next
  case (Suc retries)
  show ?case
  proof (cases "start = m")
    case True
    with Suc.prems show ?thesis by simp
  next
    case False
    with Suc.prems have lt: "start < m" by simp
    with Suc.prems obtain err where err: "input start = Rejects err" "shouldRetry err" by blast
    have "pRetry shouldRetry retries input (Suc start) = (m, Inr v)"
      using Suc.prems lt by (intro Suc.IH) auto
    with err show ?thesis by simp
  qed
qed

lemma crawlUrl_failure:
  "\<not> run_completed (Workflow_run (workflow svc) (initial_context url) (Some (timeoutMs svc))) \<Longrightarrow>
   \<not> success (CrawlService_crawlUrl svc url)"
  by (auto simp: run_completed_def CrawlService_crawlUrl_def split: sum.splits)


lemma timeout_message_10: "timeout_message 10 = ''Promise timed out after 10 milliseconds''"
  by code_simp

lemma message_404: "fetch_failed_message not_found = ''Fetch failed: 404 Not Found''"
  by code_simp

lemma fetch_404:
  "fetchHtmlTask (timed_env render_ms not_found) (initial_context ''https://example.com'')
     = (1, Inl (JsError ''Error'' ''Fetch failed: 404 Not Found''))"
  by (simp add: fetchHtmlTask_def RETRIES_def numeral_2_eq_2 timed_env_def ok_def
      not_found_def message_404 [unfolded not_found_def])

lemma timed_env_timing:
  "fetching (timed_env render_ms response) = (\<lambda>ctx. [Busy 1, Wait 5, Busy 1])"
  "elapsed (timed_env render_ms response)
     = (\<lambda>task_name ctx. if task_name = ''convert_to_markdown'' then render_ms else 1)"
  by (simp_all add: timed_env_def)

lemma timed_env_bodies:
  "extractTags (timed_env render_ms response) = (\<lambda>html fallback. Inr [])"
  "selectContent (timed_env render_ms response) = (\<lambda>html. Inr ''<p>Hi</p>'')"
  "stripMarkup (timed_env render_ms response) = (\<lambda>document. Inr ''<p>Hi</p>'')"
  "turndown (timed_env render_ms response) = (\<lambda>cleaned. Inr ''Hi'')"
  by (simp_all add: timed_env_def)

lemma fetch_page:
  "snd (fetchHtmlTask (timed_env render_ms page) (initial_context ''https://example.com''))
     = Inr [''stage'' \<mapsto> Str ''fetched'', ''url'' \<mapsto> Str ''https://example.com'',
            ''html'' \<mapsto> Str ''<p>Hi</p>'', ''title'' \<mapsto> Undefined]"
  by (simp add: fetchHtmlTask_def RETRIES_def numeral_2_eq_2 timed_env_def ok_def page_def
      initial_context_def field_of_def)

lemma not_found_service_result:
  "CrawlService_crawlUrl not_found_service ''https://example.com''
     = Failure (unknown ''Fetch failed: 404 Not Found''
         (Some (JsError ''Error'' ''Fetch failed: 404 Not Found'')))"
  by (simp add: not_found_service_def CrawlService_crawlUrl_def Workflow_run_def pPipe_def
      createCrawlWorkflow_def as_task_def fetch_404 pTimeout_def DEFAULT_TIMEOUT_MS_def
      caught_message_def stub_env_def timed_env_timing)


text \<open>
  The whole pipeline on the stub network: a page that is served becomes its markdown.
\<close>

lemma page_service_succeeds:
  "CrawlService_crawlUrl page_service ''https://example.com''
     = Success \<lparr>markdown = Str ''Hi'', title = Undefined, metadata = Meta []\<rparr>"
  by (simp add: page_service_def stub_env_def CrawlService_crawlUrl_def Workflow_run_def pPipe_def
      createCrawlWorkflow_def as_task_def fetch_page timed_env_bodies timed_env_timing
      extractMetadataTask_def parseDocumentTask_def cleanDocumentTask_def
      convertToMarkdownTask_def pTimeout_def DEFAULT_TIMEOUT_MS_def isCompleted_def field_of_def
      removeUndefined_def)

text \<open>
  A deadline that falls into a busy stretch does not stop it: when the page is fetched
  within the 10 ms and the rendering then takes 50 ms without a break, the chain
  settles before the timer's callback can run, and the crawl succeeds.
\<close>

lemma busy_stretch_outlasts_deadline:
  "CrawlService_crawlUrl slow_render_service ''https://example.com''
     = Success \<lparr>markdown = Str ''Hi'', title = Undefined, metadata = Meta []\<rparr>"
  by (simp add: slow_render_service_def CrawlService_crawlUrl_def Workflow_run_def pPipe_def
      createCrawlWorkflow_def as_task_def fetch_page timed_env_bodies timed_env_timing
      extractMetadataTask_def parseDocumentTask_def cleanDocumentTask_def
      convertToMarkdownTask_def pTimeout_def isCompleted_def field_of_def removeUndefined_def)

text \<open>
  The timer fires when it comes due, or is overdue, while a wait is still going on.
\<close>

lemma timer_fires_in_wait:
  "remaining - duration before < d \<Longrightarrow> timer_fires remaining (before @ Wait d # later)"
proof (induction before arbitrary: remaining)
  case Nil
  then show ?case by simp
next
  case (Cons seg before)
  show ?case
  proof (cases seg)
    case (Busy b)
    with Cons.prems have "(remaining - b) - duration before < d" by simp
    with Cons.IH Busy show ?thesis by simp
  next
    case (Wait w)
    with Cons.prems have "(remaining - w) - duration before < d" by simp
    with Cons.IH Wait show ?thesis by simp
  qed
qed

lemma timer_never_fires_when_busy:
  "list_all is_Busy stretches \<Longrightarrow> \<not> timer_fires remaining stretches"
  by (induction remaining stretches rule: timer_fires.induct) simp_all

section \<open>The claims\<close>

subsection \<open>C1: the overall deadline\<close>

text \<open>
  C1, as the code has it. When the service's deadline is positive and its timer gets
  to fire before the chain of stages has settled (it comes due, or is overdue, while
  the chain is suspended on an outside event), \<open>Workflow.run\<close> rejects with
  p-timeout's \<open>TimeoutError\<close>, whose message quotes the configured deadline and which
  names no stage; \<open>CrawlService.crawlUrl\<close> reports it as the variant \<open>unknown\<close>
  carrying that message, with the \<open>TimeoutError\<close> as cause. No value of the variant
  \<open>timeout\<close> is built anywhere.
\<close>

theorem deadline_gives_TimeoutError:
  assumes "0 < timeoutMs svc"
    and "timer_fires (timeoutMs svc) (pending_chain (workflow svc) (initial_context url))"
  shows "Workflow_run (workflow svc) (initial_context url) (Some (timeoutMs svc))
           = Inl (JsError ''TimeoutError'' (timeout_message (timeoutMs svc))) \<and>
         CrawlService_crawlUrl svc url
           = Failure (unknown (timeout_message (timeoutMs svc))
               (Some (JsError ''TimeoutError'' (timeout_message (timeoutMs svc)))))"
proof -
  have "workflow svc \<noteq> []"
    using assms(2) by (auto simp: pending_chain_def)
  then have "Workflow_run (workflow svc) (initial_context url) (Some (timeoutMs svc))
           = Inl (JsError ''TimeoutError'' (timeout_message (timeoutMs svc)))"
    using assms by (simp add: Workflow_run_def pPipe_def pTimeout_def pending_chain_def)
  then show ?thesis
    by (simp add: CrawlService_crawlUrl_def caught_message_def)
qed

text \<open>C1 at a task that waits 50 ms under a deadline of 10 ms.\<close>

theorem deadline_gives_TimeoutError_witness:
  "0 < timeoutMs slow_service \<and>
   timer_fires (timeoutMs slow_service)
     (pending_chain (workflow slow_service) (initial_context ''https://example.com'')) \<and>
   Workflow_run (workflow slow_service) (initial_context ''https://example.com'')
       (Some (timeoutMs slow_service))
     = Inl (JsError ''TimeoutError'' (timeout_message 10)) \<and>
   CrawlService_crawlUrl slow_service ''https://example.com''
     = Failure (unknown (timeout_message 10) (Some (JsError ''TimeoutError'' (timeout_message 10))))"
proof -
  have a: "0 < timeoutMs slow_service" by (simp add: slow_service_def)
  have b: "timer_fires (timeoutMs slow_service)
      (pending_chain (workflow slow_service) (initial_context ''https://example.com''))"
    by (simp add: slow_service_def slow_task_def pending_chain_def)
  have c: "timeoutMs slow_service = 10" by (simp add: slow_service_def)
  from deadline_gives_TimeoutError [OF a b] a b c show ?thesis by simp
qed

text \<open>
  C1 as stated fails: the same run does not fail with \<open>timeout{timeoutMs = 10, stage}\<close>
  for the stage in flight, but with \<open>unknown\<close>.
\<close>

theorem deadline_error_counterexample:
  "CrawlService_crawlUrl slow_service ''https://example.com''
     = Failure (unknown ''Promise timed out after 10 milliseconds''
         (Some (JsError ''TimeoutError'' ''Promise timed out after 10 milliseconds''))) \<and>
   CrawlService_crawlUrl slow_service ''https://example.com'' \<noteq> Failure (timeout 10 ''fetch_html'')"
  by (simp add: CrawlService_crawlUrl_def Workflow_run_def pTimeout_def pPipe_def
      slow_service_def slow_task_def caught_message_def timeout_message_10)

subsection \<open>C2: the capacity of the cache\<close>

text \<open>
  C2, for a maximum size of at least one. After any sequence of get, set and delete
  operations on a cache constructed with maximum size \<open>m \<ge> 1\<close>, the number of stored
  entries is at most \<open>m\<close>; and inserting \<open>m + 1\<close> distinct keys into the new cache
  leaves exactly \<open>m\<close> entries, every inserted key but the first one, which is the
  least recently used.
\<close>

theorem cache_capacity_holds:
  fixes m :: int
  assumes "1 \<le> m"
  shows "int (cache_size (run_cache_ops (new_CacheService ttl m) ops)) \<le> m \<and>
         (distinct (map key_of kvs) \<and> length kvs = nat m + 1 \<longrightarrow>
            dom (cache (run_cache_ops (new_CacheService ttl m) (inserts kvs)))
              = set (map key_of kvs) - {key_of (hd kvs)} \<and>
            cache_size (run_cache_ops (new_CacheService ttl m) (inserts kvs)) = nat m)"
proof (intro conjI impI)
  show "int (cache_size (run_cache_ops (new_CacheService ttl m) ops)) \<le> m"
    using assms by (rule size_bound)
next
  assume h: "distinct (map key_of kvs) \<and> length kvs = nat m + 1"
  let ?s = "run_cache_ops (new_CacheService ttl m) (inserts kvs)"
  have m': "1 \<le> nat m" "int (nat m) = m" using assms by simp_all
  from order_inserts [OF m'(1), of kvs ttl] h m'(2)
  have inv: "cache_inv ?s" and ord: "order ?s = drop (length kvs - nat m) (map key_of kvs)"
    by (simp_all add: Let_def)
  from h have ord1: "order ?s = tl (map key_of kvs)" using ord by (simp add: drop_Suc)
  from h obtain x rest where kvs: "kvs = x # rest" by (cases kvs) auto
  have "dom (cache ?s) = set (tl (map key_of kvs))"
    using inv ord1 by (simp add: cache_inv_def)
  also have "\<dots> = set (map key_of kvs) - {key_of (hd kvs)}"
    using h kvs by auto
  finally show "dom (cache ?s) = set (map key_of kvs) - {key_of (hd kvs)}" .
  show "cache_size ?s = nat m"
    using size_eq [OF inv] ord1 h by simp
qed

text \<open>C2 at maximum size 2: a mixed run of operations, and three insertions.\<close>

theorem cache_capacity_holds_witness:
  "(1::int) \<le> 2 \<and>
   int (cache_size (run_cache_ops (new_CacheService 1000 2)
          [Set 0 ''a'' ''A'', Get 1 ''a'', Delete ''b'', Set 2 ''b'' ''B'', Set 3 ''c'' ''C''])) \<le> 2 \<and>
   distinct (map key_of [(0, ''a'', ''A''), (1, ''b'', ''B''), (2, ''c'', ''C'')]) \<and>
   length [(0::int, ''a'', ''A''), (1, ''b'', ''B''), (2, ''c'', ''C'')] = nat 2 + 1 \<and>
   dom (cache (run_cache_ops (new_CacheService 1000 2)
          (inserts [(0, ''a'', ''A''), (1, ''b'', ''B''), (2, ''c'', ''C'')]))) = {''b'', ''c''} \<and>
   cache_size (run_cache_ops (new_CacheService 1000 2)
          (inserts [(0, ''a'', ''A''), (1, ''b'', ''B''), (2, ''c'', ''C'')])) = 2"
proof -
  have one: "(1::int) \<le> 2" by simp
  have d: "distinct (map key_of [(0::int, ''a'', ''A''), (1, ''b'', ''B''), (2, ''c'', ''C'')]) \<and>
     length [(0::int, ''a'', ''A''), (1, ''b'', ''B''), (2, ''c'', ''C'')] = nat 2 + 1"
    by simp
  have "set (map key_of [(0::int, ''a'', ''A''), (1, ''b'', ''B''), (2, ''c'', ''C'')])
          - {key_of (hd [(0::int, ''a'', ''A''), (1, ''b'', ''B''), (2, ''c'', ''C'')])} = {''b'', ''c''}"
    by auto
  with cache_capacity_holds [OF one, of 1000
      "[Set 0 ''a'' ''A'', Get 1 ''a'', Delete ''b'', Set 2 ''b'' ''B'', Set 3 ''c'' ''C'']"
      "[(0, ''a'', ''A''), (1, ''b'', ''B''), (2, ''c'', ''C'')]"] d one
  show ?thesis by simp
qed

text \<open>
  C2 as stated, for every maximum size, fails at size 0: one insertion leaves one
  entry.
\<close>

theorem cache_capacity_zero_counterexample:
  "\<not> int (cache_size (run_cache_ops (new_CacheService 1000 0) [Set 0 ''a'' ''A''])) \<le> 0"
  by (simp add: cache_size_def run_cache_ops_def new_CacheService_def CacheService_set_def)

subsection \<open>C3: set, then get\<close>

text \<open>
  C3. After \<open>set(k, v)\<close> at time \<open>now\<close>, a \<open>get(k)\<close> at a time up to and including
  \<open>now + ttlMs\<close> returns \<open>v\<close> and changes nothing; a \<open>get(k)\<close> at a later time returns
  absent and leaves no entry for \<open>k\<close> in the map, and (the keys of \<open>order\<close> being
  distinct) no \<open>k\<close> in \<open>order\<close>.
\<close>

theorem set_then_get:
  "(now' \<le> now + ttlMs s \<longrightarrow>
      CacheService_get now' k (CacheService_set now k v s) = (Some v, CacheService_set now k v s)) \<and>
   (now + ttlMs s < now' \<longrightarrow>
      fst (CacheService_get now' k (CacheService_set now k v s)) = None \<and>
      cache (snd (CacheService_get now' k (CacheService_set now k v s))) k = None) \<and>
   (now + ttlMs s < now' \<and> distinct (order s) \<longrightarrow>
      k \<notin> set (order (snd (CacheService_get now' k (CacheService_set now k v s)))))"
  by (simp add: set_get set_get_expired set_get_expired_order)

text \<open>C3 with a lifespan of 10: a read at 5 and a read at 11 after a write at 0.\<close>

theorem set_then_get_witness:
  "(5::int) \<le> 0 + ttlMs (new_CacheService 10 2 :: string CacheService) \<and>
   CacheService_get 5 ''k'' (CacheService_set 0 ''k'' ''v'' (new_CacheService 10 2))
     = (Some ''v'', CacheService_set 0 ''k'' ''v'' (new_CacheService 10 2)) \<and>
   (0::int) + ttlMs (new_CacheService 10 2 :: string CacheService) < 11 \<and>
   distinct (order (new_CacheService 10 2 :: string CacheService)) \<and>
   fst (CacheService_get 11 ''k'' (CacheService_set 0 ''k'' ''v'' (new_CacheService 10 2))) = None \<and>
   cache (snd (CacheService_get 11 ''k'' (CacheService_set 0 ''k'' ''v'' (new_CacheService 10 2)))) ''k''
     = None \<and>
   ''k'' \<notin> set (order (snd (CacheService_get 11 ''k''
                (CacheService_set 0 ''k'' ''v'' (new_CacheService 10 2)))))"
proof -
  have a: "(5::int) \<le> 0 + ttlMs (new_CacheService 10 2 :: string CacheService)"
    by (simp add: new_CacheService_def)
  have b: "(0::int) + ttlMs (new_CacheService 10 2 :: string CacheService) < 11"
    by (simp add: new_CacheService_def)
  have c: "distinct (order (new_CacheService 10 2 :: string CacheService))"
    by (simp add: new_CacheService_def)
  from set_then_get [of 5 0 "new_CacheService 10 2 :: string CacheService" "''k''" "''v''"]
       set_then_get [of 11 0 "new_CacheService 10 2 :: string CacheService" "''k''" "''v''"] a b c
  show ?thesis by simp
qed

subsection \<open>C4: what a hit does\<close>

text \<open>
  C4 at a concrete cache. With capacity two and the entries \<open>a\<close> (written at 0) and
  \<open>b\<close> (written at 1), a \<open>get(a)\<close> at 2 is a hit and leaves the expiry of \<open>a\<close> at
  1000, but it also leaves \<open>order\<close> as it was, with \<open>a\<close> first: the insertion of \<open>c\<close>
  that follows evicts \<open>a\<close>, the entry read last, and keeps \<open>b\<close>.
\<close>

theorem get_hit_keeps_eviction_order:
  "fst (CacheService_get 2 ''a'' two_entries) = Some ''A'' \<and>
   map_option expiresAt (cache (snd (CacheService_get 2 ''a'' two_entries)) ''a'') = Some 1000 \<and>
   order (snd (CacheService_get 2 ''a'' two_entries)) = [''a'', ''b''] \<and>
   dom (cache (CacheService_set 3 ''c'' ''C'' (snd (CacheService_get 2 ''a'' two_entries))))
     = {''b'', ''c''}"
  by (auto simp: two_entries_def run_cache_ops_def new_CacheService_def CacheService_set_def
      CacheService_get_def)

subsection \<open>C5: the sliding window\<close>

text \<open>
  C5. A check keeps of the identifier's history the timestamps whose age is below
  \<open>windowMs\<close> (those at least \<open>windowMs\<close> old are discarded). It is allowed exactly
  when fewer than \<open>maxRequests\<close> remain; then the history becomes the kept timestamps
  followed by \<open>now\<close>, and otherwise the history stays as it was. Consequently: of
  \<open>n + 1\<close> checks that lie within one window of each other, starting from no history,
  the first \<open>n\<close> are allowed and the last is denied; and in a state reached by checks
  under one limit and window, a check made once \<open>w\<close> has elapsed since the earliest
  recorded timestamp is allowed.
\<close>

theorem checkLimit_sliding_window:
  "(fst (checkLimit now i n w rl) \<longleftrightarrow> int (length (recent_of now w (history rl i))) < n) \<and>
   (fst (checkLimit now i n w rl) \<longrightarrow>
      history (snd (checkLimit now i n w rl)) i = recent_of now w (history rl i) @ [now]) \<and>
   (\<not> fst (checkLimit now i n w rl) \<longrightarrow>
      history (snd (checkLimit now i n w rl)) i = history rl i) \<and>
   (requests rl i = None \<and> 0 \<le> n \<and> length ts = nat n + 1 \<and>
      (\<forall>t\<in>set ts. \<forall>u\<in>set ts. t - u < w) \<longrightarrow>
      fst (checkAll ts i n w rl) = replicate (nat n) True @ [False]) \<and>
   (requests rl i = None \<and> history (snd (checkAll ts i n w rl)) i \<noteq> [] \<and>
      w \<le> now - Min (set (history (snd (checkAll ts i n w rl)) i)) \<longrightarrow>
      fst (checkLimit now i n w (snd (checkAll ts i n w rl))))"
proof (intro conjI impI)
  show "fst (checkLimit now i n w rl) \<longleftrightarrow> int (length (recent_of now w (history rl i))) < n"
    by (simp add: checkLimit_alt)
next
  assume "fst (checkLimit now i n w rl)"
  then have "int (length (recent_of now w (history rl i))) < n"
    by (simp add: checkLimit_alt split: if_splits)
  then show "history (snd (checkLimit now i n w rl)) i = recent_of now w (history rl i) @ [now]"
    by (simp add: history_after)
next
  assume "\<not> fst (checkLimit now i n w rl)"
  then have "\<not> int (length (recent_of now w (history rl i))) < n"
    by (simp add: checkLimit_alt split: if_splits)
  then show "history (snd (checkLimit now i n w rl)) i = history rl i"
    by (simp add: history_after)
next
  assume "requests rl i = None \<and> 0 \<le> n \<and> length ts = nat n + 1 \<and>
        (\<forall>t\<in>set ts. \<forall>u\<in>set ts. t - u < w)"
  then show "fst (checkAll ts i n w rl) = replicate (nat n) True @ [False]"
    using burst_from_empty by blast
next
  assume h: "requests rl i = None \<and> history (snd (checkAll ts i n w rl)) i \<noteq> [] \<and>
        w \<le> now - Min (set (history (snd (checkAll ts i n w rl)) i))"
  let ?rl = "snd (checkAll ts i n w rl)"
  have "history rl i = []" using h by (simp add: history_def)
  then have "int (length (history ?rl i)) \<le> n \<or> history ?rl i = []"
    by (intro checkAll_len_inv) simp
  with h have "int (length (history ?rl i)) \<le> n" by blast
  with h show "fst (checkLimit now i n w ?rl)"
    by (intro allowed_after_window [of "history ?rl i"]) simp_all
qed

text \<open>
  C5 with limit 2 and window 100: checks at 0, 10 and 20, then a check at 100.
\<close>

theorem checkLimit_sliding_window_witness:
  "requests new_RateLimiter ''ip'' = None \<and> (0::int) \<le> 2 \<and> length [0::int, 10, 20] = nat 2 + 1 \<and>
   fst (checkAll [0, 10, 20] ''ip'' 2 100 new_RateLimiter) = [True, True, False] \<and>
   history (snd (checkAll [0, 10, 20] ''ip'' 2 100 new_RateLimiter)) ''ip'' = [0, 10] \<and>
   (100::int) \<le> 100 - Min (set [0, 10]) \<and>
   fst (checkLimit 100 ''ip'' 2 100 (snd (checkAll [0, 10, 20] ''ip'' 2 100 new_RateLimiter)))"
proof -
  have a: "requests new_RateLimiter ''ip'' = None \<and> (0::int) \<le> 2 \<and>
      length [0::int, 10, 20] = nat 2 + 1 \<and>
      (\<forall>t\<in>set [0::int, 10, 20]. \<forall>u\<in>set [0, 10, 20]. t - u < 100)"
    by (simp add: new_RateLimiter_def)
  have b: "history (snd (checkAll [0, 10, 20] ''ip'' 2 100 new_RateLimiter)) ''ip'' = [0, 10]"
    by (simp add: new_RateLimiter_def checkLimit_def history_def)
  have c: "(100::int) \<le> 100 - Min (set [0, 10])" by simp
  from checkLimit_sliding_window [of 100 "''ip''" 2 100 new_RateLimiter "[0, 10, 20]"] a b c
  show ?thesis by (simp add: numeral_eq_Suc)
qed

subsection \<open>C6: only successful runs are cached\<close>

text \<open>
  C6. When the cache has no live entry for the URL, so that the pipeline runs, and the
  run does not end in a completed context (it threw, timed out, or stopped at another
  stage), the call reports a failure and the cache holds no entry for the URL
  afterwards. Read the other way round: an entry for the URL after such a call means
  the run completed.
\<close>

theorem failed_run_not_cached:
  assumes "fst (CacheService_get now_get url (crawl_cache svc)) = None"
    and "\<not> run_completed (Workflow_run (workflow (crawlService svc)) (initial_context url)
             (Some (timeoutMs (crawlService svc))))"
  shows "\<not> success (fst (CachedCrawlService_crawlUrl now_get now_set url svc)) \<and>
         cache (crawl_cache (snd (CachedCrawlService_crawlUrl now_get now_set url svc))) url = None"
proof -
  obtain c where g: "CacheService_get now_get url (crawl_cache svc) = (None, c)"
    using assms(1) by (cases "CacheService_get now_get url (crawl_cache svc)") auto
  from crawlUrl_failure [OF assms(2)] obtain e where
    e: "CrawlService_crawlUrl (crawlService svc) url = Failure e"
    by (cases "CrawlService_crawlUrl (crawlService svc) url") auto
  have "cache c url = None" using g by (rule get_miss_no_entry)
  with g e show ?thesis by (simp add: CachedCrawlService_crawlUrl_def)
qed

text \<open>C6 at a run that the deadline aborts, on an empty cache.\<close>

theorem failed_run_not_cached_witness:
  "fst (CacheService_get 0 ''https://example.com'' (crawl_cache timing_out_service)) = None \<and>
   \<not> run_completed (Workflow_run (workflow (crawlService timing_out_service))
        (initial_context ''https://example.com'') (Some (timeoutMs (crawlService timing_out_service)))) \<and>
   \<not> success (fst (CachedCrawlService_crawlUrl 0 60 ''https://example.com'' timing_out_service)) \<and>
   cache (crawl_cache (snd (CachedCrawlService_crawlUrl 0 60 ''https://example.com'' timing_out_service)))
     ''https://example.com'' = None"
proof -
  have a: "fst (CacheService_get 0 ''https://example.com'' (crawl_cache timing_out_service)) = None"
    by (simp add: timing_out_service_def new_CacheService_def CacheService_get_def)
  have b: "\<not> run_completed (Workflow_run (workflow (crawlService timing_out_service))
        (initial_context ''https://example.com'') (Some (timeoutMs (crawlService timing_out_service))))"
    by (simp add: timing_out_service_def slow_service_def slow_task_def run_completed_def
        Workflow_run_def pPipe_def pTimeout_def)
  from failed_run_not_cached [OF a b, of 60] a b show ?thesis by simp
qed

subsection \<open>C7: stages only add fields\<close>

text \<open>
  C7. For each of the five tasks of the crawl workflow, in order, and every input
  context of the variant the task expects: when the task returns a context, the fields
  of that context are a strict superset of the input's fields, every field of the
  input has the value it had, and the output is of the next variant.
\<close>

theorem stages_accumulate:
  assumes "i < 5" "has_variant (stage_order ! i) ctx"
    "run (createCrawlWorkflow env ! i) ctx = (d, Inr out)"
  shows "field_names ctx \<subset> field_names out \<and> (\<forall>f\<in>field_names ctx. out f = ctx f) \<and>
         has_variant (stage_order ! Suc i) out"
proof -
  from assms(1) consider "i = 0" | "i = 1" | "i = 2" | "i = 3" | "i = 4" by linarith
  then show ?thesis
  proof cases
    case 1
    then have v: "has_variant Initial ctx" using assms(2) by (simp add: stage_order_def)
    have u: "field_names ctx = {''url''}"
      using v by (simp add: has_variant_def) blast
    then have "''url'' \<in> field_names ctx" by simp
    then have "''url'' \<in> dom ctx" by (simp add: field_names_def)
    then obtain y where y: "ctx ''url'' = Some y" by blast
    from 1 assms(3) have "snd (fetchHtmlTask env ctx) = Inr out"
      by (simp add: createCrawlWorkflow_def as_task_def)
    then obtain html t where
      out: "out = [''stage'' \<mapsto> Str ''fetched'', ''url'' \<mapsto> field_of ctx ''url'',
                   ''html'' \<mapsto> Str html, ''title'' \<mapsto> t]"
      by (auto simp: fetchHtmlTask_def split: prod.splits sum.splits if_splits)
    have fo: "field_names out = {''url'', ''html'', ''title''}"
      unfolding out field_names_def by auto
    have same: "out ''url'' = ctx ''url''" using y by (simp add: out field_of_def)
    have tag: "out ''stage'' = Some (Str ''fetched'')" by (simp add: out)
    have "field_names ctx \<subset> field_names out" unfolding u fo by auto
    moreover have "\<forall>f\<in>field_names ctx. out f = ctx f" using u same by simp
    moreover have "has_variant Fetched out"
      unfolding has_variant_def fo using tag by auto
    ultimately show ?thesis using 1 by (simp add: stage_order_def)
  next
    case 2
    then have v: "has_variant Fetched ctx" using assms(2) by (simp add: stage_order_def)
    from 2 assms(3) obtain tags where
      "out = ctx(''stage'' \<mapsto> Str (stage_tag MetadataExtracted), ''metadata'' \<mapsto> Meta tags)"
      by (auto simp: createCrawlWorkflow_def as_task_def extractMetadataTask_def split: sum.splits)
    from spread_accumulates [OF v _ _ this] 2 show ?thesis
      by (simp add: stage_order_def insert_commute)
  next
    case 3
    then have v: "has_variant MetadataExtracted ctx" using assms(2) by (simp add: stage_order_def)
    from 3 assms(3) obtain doc where
      "out = ctx(''stage'' \<mapsto> Str (stage_tag Parsed), ''document'' \<mapsto> Str doc)"
      by (auto simp: createCrawlWorkflow_def as_task_def parseDocumentTask_def split: sum.splits)
    from spread_accumulates [OF v _ _ this] 3 show ?thesis
      by (simp add: stage_order_def insert_commute)
  next
    case 4
    then have v: "has_variant Parsed ctx" using assms(2) by (simp add: stage_order_def)
    from 4 assms(3) obtain doc where
      "out = ctx(''stage'' \<mapsto> Str (stage_tag Cleaned), ''cleanedDocument'' \<mapsto> Str doc)"
      by (auto simp: createCrawlWorkflow_def as_task_def cleanDocumentTask_def split: sum.splits)
    from spread_accumulates [OF v _ _ this] 4 show ?thesis
      by (simp add: stage_order_def insert_commute)
  next
    case 5
    then have v: "has_variant Cleaned ctx" using assms(2) by (simp add: stage_order_def)
    from 5 assms(3) obtain md where
      "out = ctx(''stage'' \<mapsto> Str (stage_tag Completed), ''markdown'' \<mapsto> Str md)"
      by (auto simp: createCrawlWorkflow_def as_task_def convertToMarkdownTask_def split: sum.splits)
    from spread_accumulates [OF v _ _ this] 5 show ?thesis
      by (simp add: stage_order_def insert_commute)
  qed
qed

text \<open>C7 at the clean stage (the fourth task), on a parsed context.\<close>

theorem stages_accumulate_witness:
  "(3::nat) < 5 \<and> has_variant (stage_order ! 3) parsed_example \<and>
   run (createCrawlWorkflow (stub_env page) ! 3) parsed_example = ([Busy 1], Inr cleaned_example) \<and>
   field_names parsed_example \<subset> field_names cleaned_example \<and>
   cleaned_example ''url'' = parsed_example ''url'' \<and>
   cleaned_example ''html'' = parsed_example ''html'' \<and>
   cleaned_example ''title'' = parsed_example ''title'' \<and>
   cleaned_example ''metadata'' = parsed_example ''metadata'' \<and>
   cleaned_example ''document'' = parsed_example ''document'' \<and>
   has_variant (stage_order ! Suc 3) cleaned_example"
proof -
  have a: "(3::nat) < 5" by simp
  have b: "has_variant (stage_order ! 3) parsed_example"
    by (auto simp: stage_order_def has_variant_def parsed_example_def field_names_def)
  have c: "run (createCrawlWorkflow (stub_env page) ! 3) parsed_example
      = ([Busy 1], Inr cleaned_example)"
    by (simp add: createCrawlWorkflow_def as_task_def cleanDocumentTask_def stub_env_def
        timed_env_def cleaned_example_def)
  have d: "field_names parsed_example = {''url'', ''html'', ''title'', ''metadata'', ''document''}"
    by (auto simp: parsed_example_def field_names_def)
  from stages_accumulate [OF a b c] a b c show ?thesis unfolding d by simp
qed

subsection \<open>C8: a response that is not ok\<close>

text \<open>
  C8, as the code has it. When the first response comes at attempt \<open>m\<close> (the earlier
  attempts, at most two, having been rejected and retried) and its status is not in
  200..299, the fetch stage throws a plain \<open>Error\<close> with the message
  \<open>Fetch failed: <status> <statusText>\<close>, and \<open>fetch\<close> has been called exactly \<open>m\<close>
  times: no call follows the response. No value of the variant \<open>fetch_failed\<close> is
  built anywhere.
\<close>

theorem non_ok_response_is_terminal:
  assumes "1 \<le> m" "m \<le> 3"
    and "\<forall>j. 1 \<le> j \<and> j < m \<longrightarrow>
           (\<exists>err. fetch env (field_of ctx ''url'') j = Rejects err \<and> retryable env err)"
    and "fetch env (field_of ctx ''url'') m = Resolves response"
    and "\<not> ok response"
  shows "fetchHtmlTask env ctx = (m, Inl (JsError ''Error'' (fetch_failed_message response)))"
proof -
  have "pRetry (retryable env) RETRIES (fetch env (field_of ctx ''url'')) 1 = (m, Inr response)"
    using assms(1-4) by (intro pRetry_first_response) (simp_all add: RETRIES_def)
  with assms(5) show ?thesis by (simp add: fetchHtmlTask_def)
qed

text \<open>C8 at a 404 answered to the first attempt.\<close>

theorem non_ok_response_is_terminal_witness:
  "(1::nat) \<le> 1 \<and> (1::nat) \<le> 3 \<and>
   fetch (stub_env not_found) (field_of (initial_context ''https://example.com'') ''url'') 1
     = Resolves not_found \<and>
   \<not> ok not_found \<and>
   fetchHtmlTask (stub_env not_found) (initial_context ''https://example.com'')
     = (1, Inl (JsError ''Error'' (fetch_failed_message not_found)))"
proof -
  have a: "\<forall>j. 1 \<le> j \<and> j < (1::nat) \<longrightarrow>
      (\<exists>err. fetch (stub_env not_found) (field_of (initial_context ''https://example.com'') ''url'') j
          = Rejects err \<and> retryable (stub_env not_found) err)"
    by simp
  have b: "fetch (stub_env not_found) (field_of (initial_context ''https://example.com'') ''url'') 1
      = Resolves not_found"
    by (simp add: stub_env_def timed_env_def)
  have c: "\<not> ok not_found" by (simp add: ok_def not_found_def)
  from non_ok_response_is_terminal [OF _ _ a b c] b c show ?thesis by simp
qed

text \<open>
  C8 as stated fails: on a 404 the stage does not fail with a \<open>fetch_failed\<close> value
  carrying the status, but with an \<open>Error\<close> that has the status in its message, and
  the service reports the variant \<open>unknown\<close>.
\<close>

theorem non_ok_response_counterexample:
  "fetchHtmlTask (stub_env not_found) (initial_context ''https://example.com'')
     = (1, Inl (JsError ''Error'' ''Fetch failed: 404 Not Found'')) \<and>
   snd (fetchHtmlTask (stub_env not_found) (initial_context ''https://example.com''))
     \<noteq> Inl (CrawlErrorObject (fetch_failed 404 ''Not Found'' ''https://example.com'')) \<and>
   CrawlService_crawlUrl not_found_service ''https://example.com''
     = Failure (unknown ''Fetch failed: 404 Not Found''
         (Some (JsError ''Error'' ''Fetch failed: 404 Not Found'')))"
  by (simp add: stub_env_def fetch_404 not_found_service_result)

subsection \<open>C9: the status of a failed crawl\<close>



subsection \<open>C10: denied checks write nothing\<close>

text \<open>
  C10. Whenever \<open>checkLimit\<close> answers \<open>allowed = false\<close>, the limiter's state after
  the call is the state before it: no timestamp is added, and the pruned list computed
  for the decision is not stored.
\<close>

theorem checkLimit_denied_unchanged:
  "fst (checkLimit now identifier maxRequests windowMs rl) = False \<Longrightarrow>
   snd (checkLimit now identifier maxRequests windowMs rl) = rl"
  by (simp add: checkLimit_def Let_def split: if_splits)

text \<open>
  C10 at a history of which the denied check would prune the first timestamp.
\<close>

theorem checkLimit_denied_unchanged_witness:
  "fst (checkLimit 150 ''ip'' 1 100 \<lparr>requests = [''ip'' \<mapsto> [0, 100]]\<rparr>) = False \<and>
   snd (checkLimit 150 ''ip'' 1 100 \<lparr>requests = [''ip'' \<mapsto> [0, 100]]\<rparr>)
     = \<lparr>requests = [''ip'' \<mapsto> [0, 100]]\<rparr>"
proof -
  have denied: "fst (checkLimit 150 ''ip'' 1 100 \<lparr>requests = [''ip'' \<mapsto> [0, 100]]\<rparr>) = False"
    by (simp add: checkLimit_def)
  from checkLimit_denied_unchanged [OF denied] denied show ?thesis by simp
qed

end
